theory Spec2Isabelle
  imports Complex_Main
begin

section \<open>The scene manager of the game client\<close>

text \<open>
  The class \<open>SceneManager\<close> keeps a table of scene classes, the scene on display and a
  flag that is set while an asynchronous \<open>loadScene\<close> is running. \<open>loadScene\<close> is an
  \<open>async\<close> method: it runs until an \<open>await\<close>, gives control back to the event loop,
  and goes on when the awaited promise settles. The model makes this explicit: the world
  holds the suspended activations of \<open>loadScene\<close>, and every event of the event loop
  (a call, an animation frame, the settling of an awaited promise, scene code that
  destroys its container) is one step.
\<close>

subsection \<open>Values\<close>

text \<open>
  What a thrown value can be: the \<open>Error\<close> of an unregistered name (the message carries
  the name), a value thrown by scene code (constructor, \<open>load\<close>, \<open>unload\<close>), and the
  \<open>TypeError\<close> of reading \<open>.container\<close> of \<open>null\<close>.
\<close>

datatype error = NotRegistered string | SceneError string | TypeError

text \<open>How a call ends: a void return (a fulfilled promise), or a throw (a rejection).\<close>

datatype result = Returned | Threw error

text \<open>The three messages written to the console.\<close>

datatype console_entry =
    Warn_transition_in_progress
  | Log_loaded string
  | Error_failed string error

text \<open>
  A scene class is a constructor. The manager only ever calls it, so a class is its
  identity and what calling it does: build a scene, or throw.
\<close>

datatype scene_class = SceneClass (class_name: string) (ctor_throws: "string option")

text \<open>
  A scene object as far as the manager touches it: the class it was built from and the
  \<open>alpha\<close> of its container. Scenes are objects with identity, so they live in a store
  and are named by a reference.
\<close>

record scene =
  cls :: scene_class
  alpha :: rat

type_synonym ref = nat

text \<open>
  The places where \<open>loadScene\<close> can be suspended. A fade keeps the variables its
  \<open>animate\<close> closure captured and whether its promise is resolved already.
\<close>

datatype await_point =
    FadeOut ref rat int bool
  | Unload
  | Load ref
  | FadeIn ref int bool

text \<open>A suspended activation of \<open>loadScene\<close>: its parameters, the local \<open>SceneClass\<close>,
  and where it waits.\<close>

record activation =
  name :: string
  sceneClass :: scene_class
  transitionDuration :: rat
  awaiting :: await_point

text \<open>
  The world: the fields of the manager (\<open>scenes\<close>, \<open>currentScene\<close>, \<open>isTransitioning\<close>),
  the children of \<open>app.stage\<close> that are scene containers, the store of scene objects with
  the next free reference, the suspended activations, the console, and the clock that
  \<open>Date.now()\<close> reads (the n-th reading is \<open>clock n\<close>).
\<close>

record world =
  scenes :: "string \<rightharpoonup> scene_class"
  currentScene :: "ref option"
  isTransitioning :: bool
  stage :: "ref list"
  heap :: "ref \<Rightarrow> scene"
  fresh :: nat
  pending :: "activation list"
  console :: "console_entry list"
  clock :: "nat \<Rightarrow> int"
  reads :: nat

text \<open>The constructor: an empty table, no current scene, the flag down.\<close>

definition init :: "(nat \<Rightarrow> int) \<Rightarrow> world" where
  "init clk =
     \<lparr> scenes = Map.empty, currentScene = None, isTransitioning = False,
       stage = [], heap = (\<lambda>_. \<lparr> cls = SceneClass [] None, alpha = 1 \<rparr>), fresh = 0,
       pending = [], console = [], clock = clk, reads = 0 \<rparr>"

subsection \<open>Registration and the accessor\<close>

definition registerScene :: "string \<Rightarrow> scene_class \<Rightarrow> world \<Rightarrow> world" where
  "registerScene n k w = w\<lparr> scenes := (scenes w)(n \<mapsto> k) \<rparr>"

definition getCurrentScene :: "world \<Rightarrow> ref option" where
  "getCurrentScene w = currentScene w"

subsection \<open>Fades\<close>

definition date_now :: "world \<Rightarrow> int \<times> world" where
  "date_now w = (clock w (reads w), w\<lparr> reads := Suc (reads w) \<rparr>)"

definition set_alpha :: "ref \<Rightarrow> rat \<Rightarrow> world \<Rightarrow> world" where
  "set_alpha r a w = w\<lparr> heap := (heap w)(r := (heap w r)\<lparr> alpha := a \<rparr>) \<rparr>"

text \<open>\<open>Math.min(elapsed / duration, 1)\<close>; a fade is only started with a duration above 0.\<close>

definition progress_at :: "int \<Rightarrow> int \<Rightarrow> rat \<Rightarrow> rat" where
  "progress_at now startTime duration = min (of_int (now - startTime) / duration) 1"

text \<open>
  One run of the closure \<open>animate\<close> of \<open>fadeOut\<close>: it writes the alpha and either asks for
  another animation frame or resolves the promise. The result tells whether it resolved.
\<close>

definition animate_out :: "ref \<Rightarrow> rat \<Rightarrow> int \<Rightarrow> rat \<Rightarrow> world \<Rightarrow> bool \<times> world" where
  "animate_out container startAlpha startTime duration w =
     (let (now, w1) = date_now w;
          progress = progress_at now startTime duration;
          w2 = set_alpha container (startAlpha * (1 - progress)) w1
      in (\<not> progress < 1, w2))"

definition animate_in :: "ref \<Rightarrow> int \<Rightarrow> rat \<Rightarrow> world \<Rightarrow> bool \<times> world" where
  "animate_in container startTime duration w =
     (let (now, w1) = date_now w;
          progress = progress_at now startTime duration;
          w2 = set_alpha container progress w1
      in (\<not> progress < 1, w2))"

text \<open>The promise executors: read the start values, run \<open>animate\<close> once.\<close>

definition fadeOut :: "ref \<Rightarrow> rat \<Rightarrow> world \<Rightarrow> await_point \<times> world" where
  "fadeOut container duration w =
     (let startAlpha = alpha (heap w container);
          (startTime, w1) = date_now w;
          (resolved, w2) = animate_out container startAlpha startTime duration w1
      in (FadeOut container startAlpha startTime resolved, w2))"

definition fadeIn :: "ref \<Rightarrow> rat \<Rightarrow> world \<Rightarrow> await_point \<times> world" where
  "fadeIn container duration w =
     (let (startTime, w1) = date_now w;
          (resolved, w2) = animate_in container startTime duration w1
      in (FadeIn container startTime resolved, w2))"

subsection \<open>The body of \<open>loadScene\<close>, cut at its awaits\<close>

text \<open>How a piece of the \<open>try\<close> block ends: at an \<open>await\<close>, at its end, or with a throw.\<close>

datatype control = Suspend await_point | Finish | Throw error

text \<open>\<open>new SceneClass(this.app, this)\<close> and the call of \<open>newScene.load()\<close>.\<close>

definition create_and_load :: "scene_class \<Rightarrow> world \<Rightarrow> control \<times> world" where
  "create_and_load k w =
     (case ctor_throws k of
        Some m \<Rightarrow> (Throw (SceneError m), w)
      | None \<Rightarrow>
          (let r = fresh w;
               w1 = w\<lparr> heap := (heap w)(r := \<lparr> cls = k, alpha = 1 \<rparr>), fresh := Suc r \<rparr>
           in (Suspend (Load r), w1)))"

text \<open>\<open>if (this.currentScene) { await this.currentScene.unload(); ...\<close> up to the await.\<close>

definition unload_current :: "scene_class \<Rightarrow> world \<Rightarrow> control \<times> world" where
  "unload_current k w =
     (case currentScene w of
        Some s \<Rightarrow> (Suspend Unload, w)
      | None \<Rightarrow> create_and_load k w)"

text \<open>The start of the \<open>try\<close> block: the fade-out of the current scene, if asked for.\<close>

definition begin_transition :: "scene_class \<Rightarrow> rat \<Rightarrow> world \<Rightarrow> control \<times> world" where
  "begin_transition k d w =
     (case currentScene w of
        Some s \<Rightarrow>
          (if d > 0 then (let (p, w1) = fadeOut s d w in (Suspend p, w1))
           else unload_current k w)
      | None \<Rightarrow> unload_current k w)"

text \<open>After \<open>unload()\<close> resolved: detach the container, clear the slot, build the new scene.\<close>

definition after_unload :: "scene_class \<Rightarrow> world \<Rightarrow> control \<times> world" where
  "after_unload k w =
     (case currentScene w of
        None \<Rightarrow> (Throw TypeError, w)
      | Some s \<Rightarrow>
          create_and_load k (w\<lparr> stage := remove1 s (stage w), currentScene := None \<rparr>))"

text \<open>After \<open>load()\<close> resolved: attach the container, set the slot, fade in if asked for.\<close>

definition after_load :: "ref \<Rightarrow> rat \<Rightarrow> world \<Rightarrow> control \<times> world" where
  "after_load r d w =
     (let w1 = w\<lparr> stage := stage w @ [r], currentScene := Some r \<rparr>
      in if d > 0
         then (let w2 = set_alpha r 0 w1; (p, w3) = fadeIn r d w2 in (Suspend p, w3))
         else (Finish, w1))"

text \<open>
  Leaving the \<open>try\<close> block: at an await the activation is parked; at the end the success
  is logged; a throw is logged by \<open>catch\<close> and thrown again; \<open>finally\<close> lowers the flag.
\<close>

definition leave :: "string \<Rightarrow> scene_class \<Rightarrow> rat \<Rightarrow> control \<times> world \<Rightarrow> world \<times> result option" where
  "leave n k d cw =
     (case cw of (ctl, w) \<Rightarrow>
       (case ctl of
          Suspend p \<Rightarrow>
            (w\<lparr> pending := pending w @
                  [\<lparr> name = n, sceneClass = k, transitionDuration = d, awaiting = p \<rparr>] \<rparr>, None)
        | Finish \<Rightarrow>
            (w\<lparr> console := console w @ [Log_loaded n], isTransitioning := False \<rparr>,
             Some Returned)
        | Throw e \<Rightarrow>
            (w\<lparr> console := console w @ [Error_failed n e], isTransitioning := False \<rparr>,
             Some (Threw e))))"

definition loadScene :: "string \<Rightarrow> rat \<Rightarrow> world \<Rightarrow> world \<times> result option" where
  "loadScene n d w =
     (if isTransitioning w
      then (w\<lparr> console := console w @ [Warn_transition_in_progress] \<rparr>, Some Returned)
      else (case scenes w n of
              None \<Rightarrow> (w, Some (Threw (NotRegistered n)))
            | Some k \<Rightarrow> leave n k d (begin_transition k d (w\<lparr> isTransitioning := True \<rparr>))))"

subsection \<open>The event loop\<close>

text \<open>How an awaited \<open>load()\<close> or \<open>unload()\<close> settles; a rejection carries the thrown value.\<close>

datatype settlement = Resolved | Rejected string

text \<open>
  The piece of \<open>loadScene\<close> that runs when the awaited promise settles. The promises of
  the fades are only ever resolved.
\<close>

definition continue :: "activation \<Rightarrow> settlement \<Rightarrow> world \<Rightarrow> control \<times> world" where
  "continue a s w =
     (case awaiting a of
        FadeOut c sa st res \<Rightarrow> unload_current (sceneClass a) w
      | Unload \<Rightarrow>
          (case s of
             Rejected m \<Rightarrow> (Throw (SceneError m), w)
           | Resolved \<Rightarrow> after_unload (sceneClass a) w)
      | Load r \<Rightarrow>
          (case s of
             Rejected m \<Rightarrow> (Throw (SceneError m), w)
           | Resolved \<Rightarrow> after_load r (transitionDuration a) w)
      | FadeIn r st res \<Rightarrow> (Finish, w))"

text \<open>Whether the promise an activation waits for can settle in the given way now.\<close>

definition can_settle :: "activation \<Rightarrow> settlement \<Rightarrow> bool" where
  "can_settle a s =
     (case awaiting a of
        FadeOut c sa st res \<Rightarrow> res \<and> s = Resolved
      | Unload \<Rightarrow> True
      | Load r \<Rightarrow> True
      | FadeIn r st res \<Rightarrow> res \<and> s = Resolved)"

definition settle :: "nat \<Rightarrow> settlement \<Rightarrow> world \<Rightarrow> world \<times> result option" where
  "settle i s w =
     (if i < length (pending w) \<and> can_settle (pending w ! i) s
      then (let a = pending w ! i;
                w1 = w\<lparr> pending := take i (pending w) @ drop (Suc i) (pending w) \<rparr>
            in leave (name a) (sceneClass a) (transitionDuration a) (continue a s w1))
      else (w, None))"

text \<open>The callback given to \<open>requestAnimationFrame\<close> by a fade that is not resolved yet.\<close>

definition animationFrame :: "nat \<Rightarrow> world \<Rightarrow> world" where
  "animationFrame i w =
     (if i < length (pending w)
      then (let a = pending w ! i in
        (case awaiting a of
           FadeOut c sa st res \<Rightarrow>
             (if res then w
              else (let (res', w1) = animate_out c sa st (transitionDuration a) w
                    in w1\<lparr> pending := (pending w1)[i := a\<lparr> awaiting := FadeOut c sa st res' \<rparr>] \<rparr>))
         | FadeIn r st res \<Rightarrow>
             (if res then w
              else (let (res', w1) = animate_in r st (transitionDuration a) w
                    in w1\<lparr> pending := (pending w1)[i := a\<lparr> awaiting := FadeIn r st res' \<rparr>] \<rparr>))
         | Unload \<Rightarrow> w
         | Load r \<Rightarrow> w))
      else w)"

text \<open>
  \<open>BaseScene.unload\<close>: \<open>this.container.removeChildren(); this.container.destroy(...)\<close>.
  Destroying a container takes it off its parent, which for the container of a scene is
  the stage.
\<close>

definition baseScene_unload :: "ref \<Rightarrow> world \<Rightarrow> world" where
  "baseScene_unload s w = w\<lparr> stage := remove1 s (stage w) \<rparr>"

text \<open>
  The \<open>unload()\<close> the manager awaits is scene code: \<open>MenuScene\<close> and \<open>QuizScene\<close> end
  with \<open>await super.unload()\<close>, \<open>OverworldScene\<close> never gets there, and a body may
  throw before or after. So whether and when the body of \<open>BaseScene.unload\<close> runs is an
  event of its own, possible while activation \<open>i\<close> awaits the \<open>unload()\<close> of the current
  scene. No other event can come between the call of \<open>unload()\<close> and the synchronous part
  of its body, so a body that gets there at once is this event right after the step
  that made the call.
\<close>

definition sceneUnloadBody :: "nat \<Rightarrow> world \<Rightarrow> world" where
  "sceneUnloadBody i w =
     (if i < length (pending w)
      then (case awaiting (pending w ! i) of
              Unload \<Rightarrow>
                (case currentScene w of
                   Some s \<Rightarrow> baseScene_unload s w
                 | None \<Rightarrow> w)
            | FadeOut c sa st res \<Rightarrow> w
            | Load r \<Rightarrow> w
            | FadeIn r st res \<Rightarrow> w)
      else w)"

text \<open>
  \<open>update\<close> hands the time step to the current scene; the manager's own state stays as
  it is.
\<close>

definition update :: "rat \<Rightarrow> world \<Rightarrow> world" where
  "update deltaTime w = (case currentScene w of Some s \<Rightarrow> w | None \<Rightarrow> w)"

datatype event =
    RegisterScene string scene_class
  | LoadScene string rat
  | Update rat
  | AnimationFrame nat
  | Settle nat settlement
  | BaseUnload nat

fun step :: "event \<Rightarrow> world \<Rightarrow> world \<times> result option" where
  "step (RegisterScene n k) w = (registerScene n k w, Some Returned)"
| "step (LoadScene n d) w = loadScene n d w"
| "step (Update dt) w = (update dt w, Some Returned)"
| "step (AnimationFrame i) w = (animationFrame i w, None)"
| "step (Settle i s) w = settle i s w"
| "step (BaseUnload i) w = (sceneUnloadBody i w, None)"

fun run :: "event list \<Rightarrow> world \<Rightarrow> world" where
  "run [] w = w"
| "run (e # es) w = run es (fst (step e w))"

subsection \<open>What holds between the steps\<close>

text \<open>
  What a parked activation can rely on, by the place where it waits: a fade-out runs on
  the current scene; \<open>unload()\<close> is awaited on a current scene; while \<open>load()\<close> is awaited
  the slot is empty and the new scene, built from the activation's class with alpha 1,
  is not attached; a fade-in runs on the current scene, which is attached, and once its
  promise is resolved the alpha is 1.
\<close>

definition wf_await :: "world \<Rightarrow> activation \<Rightarrow> bool" where
  "wf_await w a =
     (case awaiting a of
        FadeOut c sa st res \<Rightarrow> currentScene w = Some c \<and> 0 < transitionDuration a
      | Unload \<Rightarrow> currentScene w \<noteq> None
      | Load r \<Rightarrow>
          currentScene w = None \<and> r < fresh w \<and> r \<notin> set (stage w) \<and>
          cls (heap w r) = sceneClass a \<and> alpha (heap w r) = 1
      | FadeIn r st res \<Rightarrow>
          currentScene w = Some r \<and> r \<in> set (stage w) \<and> 0 < transitionDuration a \<and>
          cls (heap w r) = sceneClass a \<and> (res \<longrightarrow> alpha (heap w r) = 1))"

definition invariant :: "world \<Rightarrow> bool" where
  "invariant w =
     ((isTransitioning w \<longleftrightarrow> pending w \<noteq> []) \<and>
      length (pending w) \<le> 1 \<and>
      (\<forall>a \<in> set (pending w). wf_await w a) \<and>
      (\<forall>r \<in> set (stage w). r < fresh w))"

subsection \<open>The scenes the game registers\<close>

text \<open>
  \<open>Game.registerScenes\<close> registers \<open>MenuScene\<close> under \<open>'menu'\<close> and \<open>OverworldScene\<close>
  under \<open>'overworld'\<close>. The clock of the examples ticks 16 ms at every reading.
\<close>

definition MenuScene :: scene_class where
  "MenuScene = SceneClass ''MenuScene'' None"

definition OverworldScene :: scene_class where
  "OverworldScene = SceneClass ''OverworldScene'' None"

definition registerScenes :: "event list" where
  "registerScenes =
     [RegisterScene ''menu'' MenuScene, RegisterScene ''overworld'' OverworldScene]"

definition frame_clock :: "nat \<Rightarrow> int" where
  "frame_clock n = 16 * int n"

text \<open>A slow clock: 200 ms between two readings.\<close>

definition slow_clock :: "nat \<Rightarrow> int" where
  "slow_clock n = 200 * int n"

subsection \<open>A transition that stays in flight\<close>

text \<open>
  Along the events \<open>es\<close> from \<open>w\<close> on, in every world passed and in the last one, an
  activation of \<open>loadScene\<close> is parked: the transition does not end on the way.
\<close>

fun in_flight_through :: "event list \<Rightarrow> world \<Rightarrow> bool" where
  "in_flight_through [] w = (pending w \<noteq> [])"
| "in_flight_through (e # es) w = (pending w \<noteq> [] \<and> in_flight_through es (fst (step e w)))"

text \<open>Two records of one call of \<open>loadScene\<close>: they differ at most in where it waits.\<close>

definition same_call :: "activation \<Rightarrow> activation \<Rightarrow> bool" where
  "same_call a b \<longleftrightarrow>
     name b = name a \<and> sceneClass b = sceneClass a \<and>
     transitionDuration b = transitionDuration a"

text \<open>The events in which scene code runs the body of \<open>BaseScene.unload\<close>.\<close>

fun is_BaseUnload :: "event \<Rightarrow> bool" where
  "is_BaseUnload (BaseUnload i) = True"
| "is_BaseUnload e = False"

text \<open>
  While a transition, if one is parked, is still before the end of \<open>unload()\<close> (in the
  fade-out or awaiting \<open>unload()\<close>), the slot holds \<open>s\<close> and the stage is \<open>st\<close>.
\<close>

definition outgoing_kept :: "ref \<Rightarrow> ref list \<Rightarrow> world \<Rightarrow> bool" where
  "outgoing_kept s st w =
     (\<forall>a \<in> set (pending w).
        (case awaiting a of
           FadeOut c sa t res \<Rightarrow> currentScene w = Some s \<and> stage w = st
         | Unload \<Rightarrow> currentScene w = Some s \<and> stage w = st
         | Load r \<Rightarrow> True
         | FadeIn r t res \<Rightarrow> True))"

section \<open>Properties\<close>

subsection \<open>The invariant\<close>

lemmas body_defs = leave_def begin_transition_def unload_current_def create_and_load_def
  after_unload_def after_load_def fadeOut_def fadeIn_def animate_out_def animate_in_def
  date_now_def set_alpha_def

lemmas eval_defs = MenuScene_def OverworldScene_def registerScenes_def frame_clock_def
  slow_clock_def
  init_def registerScene_def getCurrentScene_def loadScene_def settle_def can_settle_def
  continue_def animationFrame_def update_def progress_at_def sceneUnloadBody_def
  baseScene_unload_def body_defs Let_def

lemma pending_cases:
  assumes "invariant w"
  obtains "pending w = []" "\<not> isTransitioning w"
  | a where "pending w = [a]" "isTransitioning w" "wf_await w a"
proof (cases "pending w")
  case Nil
  with assms show ?thesis using that(1) by (simp add: invariant_def)
next
  case (Cons a as)
  with assms have "as = []" by (simp add: invariant_def)
  with Cons assms show ?thesis using that(2) by (simp add: invariant_def)
qed

lemma invariant_init: "invariant (init clk)"
  by (simp add: invariant_def init_def)

lemma progress_done: "\<not> progress_at n s d < 1 \<Longrightarrow> progress_at n s d = 1"
  by (simp add: progress_at_def min_def split: if_splits)

lemma invariant_console [simp]: "invariant (w\<lparr> console := x \<rparr>) = invariant w"
  by (simp add: invariant_def wf_await_def cong: await_point.case_cong option.case_cong)

lemma invariant_scenes [simp]: "invariant (w\<lparr> scenes := x \<rparr>) = invariant w"
  by (simp add: invariant_def wf_await_def cong: await_point.case_cong option.case_cong)

lemma in_set_remove1D: "r \<in> set (remove1 x xs) \<Longrightarrow> r \<in> set xs"
  using set_remove1_subset [of x xs] by blast

lemma update_id: "update dt w = w"
  by (simp add: update_def split: option.splits)

lemma invariant_loadScene:
  assumes inv: "invariant w"
  shows "invariant (fst (loadScene n d w))"
proof (rule pending_cases [OF inv])
  assume idle: "pending w = []" "\<not> isTransitioning w"
  show ?thesis
    using idle inv
    by (auto simp: loadScene_def invariant_def wf_await_def body_defs Let_def
             split: option.splits prod.splits)
next
  fix a assume "pending w = [a]" "isTransitioning w" "wf_await w a"
  with inv show ?thesis
    by (simp add: loadScene_def)
qed

lemma invariant_animationFrame:
  assumes inv: "invariant w"
  shows "invariant (animationFrame i w)"
proof (rule pending_cases [OF inv])
  assume "pending w = []" "\<not> isTransitioning w"
  with inv show ?thesis by (simp add: animationFrame_def)
next
  fix a assume busy: "pending w = [a]" "isTransitioning w" "wf_await w a"
  show ?thesis
  proof (cases "i = 0")
    case False
    with busy inv show ?thesis by (simp add: animationFrame_def)
  next
    case True
    with busy inv show ?thesis
      by (cases "awaiting a")
         (auto simp: animationFrame_def invariant_def wf_await_def body_defs Let_def
               dest: progress_done split: prod.splits)
  qed
qed

lemma invariant_settle:
  assumes inv: "invariant w"
  shows "invariant (fst (settle i s w))"
proof (rule pending_cases [OF inv])
  assume "pending w = []" "\<not> isTransitioning w"
  with inv show ?thesis by (simp add: settle_def)
next
  fix a assume busy: "pending w = [a]" "isTransitioning w" "wf_await w a"
  show ?thesis
  proof (cases "i = 0 \<and> can_settle a s")
    case False
    with busy inv show ?thesis by (auto simp: settle_def)
  next
    case True
    with busy inv show ?thesis
      by (cases "awaiting a"; cases s)
         (auto simp: settle_def can_settle_def continue_def invariant_def wf_await_def
                     body_defs Let_def
               dest: progress_done dest!: in_set_remove1D intro: less_SucI
               split: prod.splits option.splits)
  qed
qed

lemma invariant_sceneUnloadBody:
  assumes inv: "invariant w"
  shows "invariant (sceneUnloadBody i w)"
proof (rule pending_cases [OF inv])
  assume "pending w = []" "\<not> isTransitioning w"
  with inv show ?thesis by (simp add: sceneUnloadBody_def)
next
  fix a assume busy: "pending w = [a]" "isTransitioning w" "wf_await w a"
  with inv show ?thesis
    by (cases "awaiting a"; cases i)
       (auto simp: sceneUnloadBody_def baseScene_unload_def invariant_def wf_await_def
             dest!: in_set_remove1D split: option.splits)
qed

lemma invariant_step: "invariant w \<Longrightarrow> invariant (fst (step e w))"
  by (cases e)
     (simp_all add: invariant_loadScene invariant_animationFrame invariant_settle update_id
        invariant_sceneUnloadBody,
      simp add: registerScene_def)

lemma invariant_run_from: "invariant w \<Longrightarrow> invariant (run es w)"
  by (induction es arbitrary: w) (simp_all add: invariant_step)

lemma invariant_run: "invariant (run es (init clk))"
  by (rule invariant_run_from [OF invariant_init])

subsection \<open>One call from its start to its end\<close>

lemma continue_pending: "continue a s w = (c, w') \<Longrightarrow> pending w' = pending w"
  by (cases "awaiting a"; cases s)
     (auto simp: continue_def body_defs Let_def split: option.splits prod.splits if_splits)

lemma begin_transition_pending:
  "begin_transition k d w = (c, w') \<Longrightarrow> pending w' = pending w"
  by (auto simp: body_defs Let_def split: option.splits prod.splits if_splits)

lemma activation_kept:
  assumes inv: "invariant w" and one: "pending w = [a]"
    and still: "pending (fst (step e w)) \<noteq> []"
  shows "\<exists>b. pending (fst (step e w)) = [b] \<and> same_call a b"
proof -
  from inv one have flag: "isTransitioning w" by (simp add: invariant_def)
  show ?thesis
  proof (cases e)
    case (RegisterScene n k)
    with one show ?thesis by (simp add: registerScene_def same_call_def)
  next
    case (LoadScene n d)
    with one flag show ?thesis by (simp add: loadScene_def same_call_def)
  next
    case (Update dt)
    with one show ?thesis by (simp add: update_id same_call_def)
  next
    case (AnimationFrame i)
    with one show ?thesis
      by (cases i; cases "awaiting a")
         (auto simp: animationFrame_def same_call_def animate_out_def animate_in_def
                     date_now_def set_alpha_def Let_def split: prod.splits)
  next
    case (Settle i s)
    with one still show ?thesis
      by (auto simp: settle_def leave_def same_call_def Let_def
               dest!: continue_pending
               split: if_splits prod.splits control.splits)
  next
    case (BaseUnload i)
    with one show ?thesis
      by (auto simp: sceneUnloadBody_def baseScene_unload_def same_call_def
               split: await_point.splits option.splits)
  qed
qed

lemma same_call_run:
  "invariant w \<Longrightarrow> pending w = [a] \<Longrightarrow> in_flight_through es w \<Longrightarrow>
   \<exists>b. pending (run es w) = [b] \<and> same_call a b"
proof (induction es arbitrary: w a)
  case Nil
  then show ?case by (simp add: same_call_def)
next
  case (Cons e es)
  from Cons.prems have flight: "in_flight_through es (fst (step e w))" by simp
  then have "pending (fst (step e w)) \<noteq> []" by (cases es) simp_all
  with Cons.prems obtain b where b: "pending (fst (step e w)) = [b]" "same_call a b"
    using activation_kept by blast
  have "invariant (fst (step e w))" using Cons.prems(1) by (rule invariant_step)
  from Cons.IH [OF this b(1) flight] obtain c
    where "pending (run es (fst (step e w))) = [c]" "same_call b c" by blast
  with b(2) show ?case by (auto simp: same_call_def)
qed

lemma call_parks:
  assumes idle: "pending w = []" "\<not> isTransitioning w" and reg: "scenes w n = Some k"
    and parked: "pending (fst (loadScene n d w)) \<noteq> []"
  shows "\<exists>p. pending (fst (loadScene n d w)) =
           [\<lparr> name = n, sceneClass = k, transitionDuration = d, awaiting = p \<rparr>]"
  using assms
  by (auto simp: loadScene_def body_defs Let_def
           split: option.splits prod.splits if_splits)

lemma success_installs:
  assumes inv: "invariant w" and one: "pending w = [a]"
    and st: "settle i s w = (w', Some Returned)"
  shows "\<exists>r. currentScene w' = Some r \<and> cls (heap w' r) = sceneClass a \<and>
             r \<in> set (stage w') \<and> alpha (heap w' r) = 1 \<and> \<not> isTransitioning w'"
proof -
  from inv one have wf: "wf_await w a" by (simp add: invariant_def)
  from st one have i: "i = 0" "can_settle a s"
    by (auto simp: settle_def split: if_splits)
  show ?thesis
    using inv one wf st i
    by (cases "awaiting a"; cases s)
       (auto simp: settle_def can_settle_def continue_def invariant_def wf_await_def
                   body_defs Let_def
             split: prod.splits option.splits if_splits)
qed

lemma outgoing_kept_step:
  assumes inv: "invariant w" and one: "pending w = [a]" and kept: "outgoing_kept s st w"
    and other: "\<not> is_BaseUnload e" and still: "pending (fst (step e w)) \<noteq> []"
  shows "outgoing_kept s st (fst (step e w))"
proof -
  from inv one have flag: "isTransitioning w" and wf: "wf_await w a"
    by (simp_all add: invariant_def)
  show ?thesis
  proof (cases e)
    case (RegisterScene n k)
    with kept show ?thesis
      by (simp add: registerScene_def outgoing_kept_def cong: await_point.case_cong)
  next
    case (LoadScene n d)
    with kept flag show ?thesis
      by (simp add: loadScene_def outgoing_kept_def cong: await_point.case_cong)
  next
    case (Update dt)
    with kept show ?thesis by (simp add: update_id)
  next
    case (AnimationFrame i)
    with one kept show ?thesis
      by (cases i; cases "awaiting a")
         (auto simp: animationFrame_def outgoing_kept_def animate_out_def animate_in_def
                     date_now_def set_alpha_def Let_def split: prod.splits)
  next
    case (Settle i x)
    with one kept wf still show ?thesis
      by (cases "awaiting a"; cases x)
         (auto simp: settle_def can_settle_def continue_def outgoing_kept_def wf_await_def
                     body_defs Let_def
               split: if_splits prod.splits option.splits)
  next
    case (BaseUnload i)
    with other show ?thesis by simp
  qed
qed

lemma outgoing_kept_run:
  "invariant w \<Longrightarrow> pending w = [a] \<Longrightarrow> outgoing_kept s st w \<Longrightarrow>
   in_flight_through es w \<Longrightarrow> \<not> list_ex is_BaseUnload es \<Longrightarrow>
   outgoing_kept s st (run es w)"
proof (induction es arbitrary: w a)
  case Nil
  then show ?case by simp
next
  case (Cons e es)
  from Cons.prems have flight: "in_flight_through es (fst (step e w))" by simp
  then have still: "pending (fst (step e w)) \<noteq> []" by (cases es) simp_all
  from Cons.prems have other: "\<not> is_BaseUnload e" "\<not> list_ex is_BaseUnload es" by simp_all
  from activation_kept [OF Cons.prems(1,2) still]
  obtain b where b: "pending (fst (step e w)) = [b]" by blast
  have inv': "invariant (fst (step e w))" using Cons.prems(1) by (rule invariant_step)
  have kept': "outgoing_kept s st (fst (step e w))"
    using outgoing_kept_step [OF Cons.prems(1,2,3) other(1) still] .
  from Cons.IH [OF inv' b kept' flight other(2)] show ?case by simp
qed

lemma call_keeps_outgoing:
  assumes "pending w = []" "\<not> isTransitioning w" "currentScene w = Some s" "scenes w n = Some k"
  shows "outgoing_kept s (stage w) (fst (loadScene n d w))"
  using assms
  by (auto simp: loadScene_def outgoing_kept_def body_defs Let_def split: prod.splits)

subsection \<open>A call during a transition\<close>

text \<open>
  C1, as the spec has it: a \<open>loadScene\<close> during a transition fails with an error. It does
  not: with \<open>'menu'\<close> loading, the call for \<open>'overworld'\<close> returns.
\<close>

theorem loadScene_not_rejected_counterexample:
  "isTransitioning (run (registerScenes @ [LoadScene ''menu'' 300]) (init frame_clock)) \<and>
   snd (step (LoadScene ''overworld'' 300)
          (run (registerScenes @ [LoadScene ''menu'' 300]) (init frame_clock))) = Some Returned"
  by (simp add: eval_defs)

text \<open>
  C1, amended: a \<open>loadScene\<close> called while the flag is up writes a warning to the console
  and returns; the table, the slot, the flag, the stage, the scenes and the parked
  activation are as before, and no activation is added.
\<close>

theorem loadScene_while_transitioning:
  "isTransitioning w \<Longrightarrow>
   step (LoadScene n d) w =
     (w\<lparr> console := console w @ [Warn_transition_in_progress] \<rparr>, Some Returned)"
  by (simp add: loadScene_def)

theorem loadScene_while_transitioning_witness:
  "isTransitioning (run (registerScenes @ [LoadScene ''menu'' 300]) (init frame_clock)) \<and>
   pending (fst (step (LoadScene ''overworld'' 300)
          (run (registerScenes @ [LoadScene ''menu'' 300]) (init frame_clock)))) =
     [\<lparr> name = ''menu'', sceneClass = MenuScene, transitionDuration = 300,
        awaiting = Load 0 \<rparr>]"
proof -
  have h: "isTransitioning (run (registerScenes @ [LoadScene ''menu'' 300]) (init frame_clock))"
    by (simp add: eval_defs)
  show ?thesis
    using h loadScene_while_transitioning [OF h, of "''overworld''" 300]
    by (simp add: eval_defs)
qed

subsection \<open>The slot during the fade-in\<close>

text \<open>
  C2, as the spec has it: \<open>getCurrentScene()\<close> returns the new scene only after the
  fade-in. It does not: right after \<open>load()\<close> of \<open>'menu'\<close> resolved, the fade-in is not
  resolved, the alpha of the new scene is 4/75, the flag is up, and the slot holds the
  new scene already.
\<close>

theorem getCurrentScene_mid_fade_counterexample:
  "getCurrentScene (run (registerScenes @ [LoadScene ''menu'' 300, Settle 0 Resolved]) (init frame_clock)) = Some 0 \<and>
   isTransitioning (run (registerScenes @ [LoadScene ''menu'' 300, Settle 0 Resolved]) (init frame_clock)) \<and>
   pending (run (registerScenes @ [LoadScene ''menu'' 300, Settle 0 Resolved]) (init frame_clock)) =
     [\<lparr> name = ''menu'', sceneClass = MenuScene, transitionDuration = 300, awaiting = FadeIn 0 0 False \<rparr>] \<and>
   alpha (heap (run (registerScenes @ [LoadScene ''menu'' 300, Settle 0 Resolved]) (init frame_clock)) 0) = 4 / 75"
  by (simp add: eval_defs)


text \<open>
  C2, amended: the slot is set in the step in which \<open>load()\<close> resolves, before the
  fade-in starts. While \<open>load()\<close> is awaited \<open>getCurrentScene()\<close> is empty; from the
  moment it resolves, and during the whole fade-in, it is the new scene, built from the
  class of the call. The fade-in is the last step of the transition.
\<close>

theorem current_scene_set_before_fade_in:
  assumes "w = run es (init clk)" and "i < length (pending w)"
  shows "(awaiting (pending w ! i) = Load r \<longrightarrow>
            getCurrentScene w = None \<and>
            getCurrentScene (fst (step (Settle i Resolved) w)) = Some r \<and>
            cls (heap (fst (step (Settle i Resolved) w)) r) = sceneClass (pending w ! i)) \<and>
         (awaiting (pending w ! i) = FadeIn r st res \<longrightarrow>
            getCurrentScene w = Some r \<and> cls (heap w r) = sceneClass (pending w ! i))"
proof -
  have inv: "invariant w" using assms(1) by (simp add: invariant_run)
  show ?thesis
  proof (rule pending_cases [OF inv])
    assume "pending w = []" "\<not> isTransitioning w"
    with assms(2) show ?thesis by simp
  next
    fix a assume busy: "pending w = [a]" "isTransitioning w" "wf_await w a"
    with assms(2) have i: "i = 0" by simp
    show ?thesis
      using busy i
      by (auto simp: wf_await_def getCurrentScene_def settle_def can_settle_def continue_def
                     body_defs Let_def split: prod.splits)
  qed
qed

theorem current_scene_set_before_fade_in_witness:
  "0 < length (pending (run (registerScenes @ [LoadScene ''menu'' 300]) (init frame_clock))) \<and>
   awaiting (pending (run (registerScenes @ [LoadScene ''menu'' 300]) (init frame_clock)) ! 0) = Load 0 \<and>
   getCurrentScene (fst (step (Settle 0 Resolved)
      (run (registerScenes @ [LoadScene ''menu'' 300]) (init frame_clock)))) = Some 0 \<and>
   awaiting (pending (fst (step (Settle 0 Resolved)
      (run (registerScenes @ [LoadScene ''menu'' 300]) (init frame_clock)))) ! 0) = FadeIn 0 0 False"
proof -
  have h: "0 < length (pending (run (registerScenes @ [LoadScene ''menu'' 300]) (init frame_clock)))"
    by (simp add: eval_defs)
  show ?thesis
    using h current_scene_set_before_fade_in [OF refl h, of 0]
    by (simp add: eval_defs)
qed

subsection \<open>A rejected \<open>unload()\<close>\<close>

text \<open>
  C3, as the spec has it: after a rejected \<open>unload()\<close> there is no current scene. There
  is: with \<open>'menu'\<close> on display and \<open>'overworld'\<close> asked for, a rejection of
  \<open>unload()\<close> is thrown on to the caller and the slot still holds the menu scene.
\<close>

theorem unload_rejected_slot_counterexample:
  "awaiting (pending (run (registerScenes @
        [LoadScene ''menu'' 0, Settle 0 Resolved, LoadScene ''overworld'' 0])
        (init frame_clock)) ! 0) = Unload \<and>
   snd (step (Settle 0 (Rejected ''unload failed''))
     (run (registerScenes @
        [LoadScene ''menu'' 0, Settle 0 Resolved, LoadScene ''overworld'' 0])
        (init frame_clock))) = Some (Threw (SceneError ''unload failed'')) \<and>
   getCurrentScene (fst (step (Settle 0 (Rejected ''unload failed''))
     (run (registerScenes @
        [LoadScene ''menu'' 0, Settle 0 Resolved, LoadScene ''overworld'' 0])
        (init frame_clock)))) = Some 0"
  by (simp add: eval_defs)


text \<open>
  C3, amended: when the \<open>unload()\<close> of the outgoing scene rejects, the error reaches the
  caller, the flag is down and no activation is left (the manager is idle), and the slot
  still holds the outgoing scene: \<open>getCurrentScene()\<close> returns what it returned before.
\<close>

theorem unload_rejected_keeps_current:
  assumes "w = run es (init clk)" and "i < length (pending w)"
    and "awaiting (pending w ! i) = Unload"
    and "step (Settle i (Rejected m)) w = (w', res)"
  shows "res = Some (Threw (SceneError m)) \<and> \<not> isTransitioning w' \<and> pending w' = [] \<and>
         getCurrentScene w' = getCurrentScene w \<and> getCurrentScene w' \<noteq> None"
proof -
  have inv: "invariant w" using assms(1) by (simp add: invariant_run)
  show ?thesis
  proof (rule pending_cases [OF inv])
    assume "pending w = []" "\<not> isTransitioning w"
    with assms(2) show ?thesis by simp
  next
    fix a assume busy: "pending w = [a]" "isTransitioning w" "wf_await w a"
    with assms(2) have i: "i = 0" by simp
    show ?thesis
      using busy i assms(3,4)
      by (auto simp: wf_await_def getCurrentScene_def settle_def can_settle_def continue_def
                     leave_def)
  qed
qed

theorem unload_rejected_keeps_current_witness:
  "0 < length (pending (run (registerScenes @
        [LoadScene ''menu'' 0, Settle 0 Resolved, LoadScene ''overworld'' 0])
        (init frame_clock))) \<and>
   awaiting (pending (run (registerScenes @
        [LoadScene ''menu'' 0, Settle 0 Resolved, LoadScene ''overworld'' 0])
        (init frame_clock)) ! 0) = Unload \<and>
   getCurrentScene (fst (step (Settle 0 (Rejected ''unload failed''))
     (run (registerScenes @
        [LoadScene ''menu'' 0, Settle 0 Resolved, LoadScene ''overworld'' 0])
        (init frame_clock)))) =
   getCurrentScene (run (registerScenes @
        [LoadScene ''menu'' 0, Settle 0 Resolved, LoadScene ''overworld'' 0])
        (init frame_clock)) \<and>
   \<not> isTransitioning (fst (step (Settle 0 (Rejected ''unload failed''))
     (run (registerScenes @
        [LoadScene ''menu'' 0, Settle 0 Resolved, LoadScene ''overworld'' 0])
        (init frame_clock))))"
proof -
  let ?w = "run (registerScenes @
        [LoadScene ''menu'' 0, Settle 0 Resolved, LoadScene ''overworld'' 0])
        (init frame_clock)"
  have h1: "0 < length (pending ?w)" by (simp add: eval_defs)
  have h2: "awaiting (pending ?w ! 0) = Unload" by (simp add: eval_defs)
  show ?thesis
    using h1 h2 unload_rejected_keeps_current [OF refl h1 h2 surjective_pairing, of "''unload failed''"]
    by simp
qed

text \<open>
  C7, as the spec has it: after a rejected \<open>unload()\<close> the container of the outgoing
  scene is still attached. Not always: with \<open>'menu'\<close> on display and \<open>'overworld'\<close>
  asked for, an \<open>unload()\<close> that runs the body of \<open>BaseScene.unload\<close> and then rejects
  leaves the stage empty, while the slot still holds the menu scene.
\<close>

theorem unload_rejected_detached_counterexample:
  "awaiting (pending (run (registerScenes @
        [LoadScene ''menu'' 0, Settle 0 Resolved, LoadScene ''overworld'' 0, BaseUnload 0])
        (init frame_clock)) ! 0) = Unload \<and>
   currentScene (run (registerScenes @
        [LoadScene ''menu'' 0, Settle 0 Resolved, LoadScene ''overworld'' 0, BaseUnload 0])
        (init frame_clock)) = Some 0 \<and>
   stage (run (registerScenes @ [LoadScene ''menu'' 0, Settle 0 Resolved])
        (init frame_clock)) = [0] \<and>
   snd (step (Settle 0 (Rejected ''unload failed''))
     (run (registerScenes @
        [LoadScene ''menu'' 0, Settle 0 Resolved, LoadScene ''overworld'' 0, BaseUnload 0])
        (init frame_clock))) = Some (Threw (SceneError ''unload failed'')) \<and>
   stage (fst (step (Settle 0 (Rejected ''unload failed''))
     (run (registerScenes @
        [LoadScene ''menu'' 0, Settle 0 Resolved, LoadScene ''overworld'' 0, BaseUnload 0])
        (init frame_clock)))) = []"
  by (simp add: eval_defs)

text \<open>
  C7, amended: take a call of \<open>loadScene\<close> made with no transition running and with the
  current scene \<open>s\<close> attached. If the \<open>unload()\<close> of \<open>s\<close> rejects and scene code has not
  run the body of \<open>BaseScene.unload\<close> during the call, the manager has detached
  nothing: the stage is as it was at the call, with the container of \<open>s\<close> on it, \<open>s\<close> is
  still in the slot, the error reaches the caller and the flag is down.
\<close>

theorem unload_rejected_stays_attached:
  assumes "w0 = run es0 (init clk)" and "\<not> isTransitioning w0"
    and "currentScene w0 = Some s" and "s \<in> set (stage w0)" and "scenes w0 n = Some k"
    and "w1 = fst (step (LoadScene n d) w0)" and "in_flight_through es w1"
    and "\<not> list_ex is_BaseUnload es"
    and "i < length (pending (run es w1))"
    and "awaiting (pending (run es w1) ! i) = Unload"
    and "step (Settle i (Rejected m)) (run es w1) = (w', res)"
  shows "res = Some (Threw (SceneError m)) \<and> \<not> isTransitioning w' \<and>
         stage w' = stage w0 \<and> currentScene w' = Some s \<and> s \<in> set (stage w')"
proof -
  have inv0: "invariant w0" using assms(1) by (simp add: invariant_run)
  with assms(2) have idle: "pending w0 = []" by (simp add: invariant_def)
  have inv1: "invariant w1" using assms(6) invariant_loadScene [OF inv0] by simp
  from assms(7) have parked: "pending w1 \<noteq> []" by (cases es) simp_all
  with assms(2,5,6) idle obtain p where
    p: "pending w1 = [\<lparr> name = n, sceneClass = k, transitionDuration = d, awaiting = p \<rparr>]"
    using call_parks [of w0 n k d] by auto
  have kept1: "outgoing_kept s (stage w0) w1"
    using call_keeps_outgoing [OF idle assms(2,3,5)] assms(6) by simp
  have kept: "outgoing_kept s (stage w0) (run es w1)"
    using outgoing_kept_run [OF inv1 p kept1 assms(7,8)] .
  have inv: "invariant (run es w1)" using inv1 by (rule invariant_run_from)
  show ?thesis
  proof (rule pending_cases [OF inv])
    assume "pending (run es w1) = []" "\<not> isTransitioning (run es w1)"
    with assms(9) show ?thesis by simp
  next
    fix a assume busy: "pending (run es w1) = [a]" "isTransitioning (run es w1)"
      "wf_await (run es w1) a"
    with assms(9) have i: "i = 0" by simp
    from busy i assms(10) kept have "currentScene (run es w1) = Some s"
      "stage (run es w1) = stage w0"
      by (simp_all add: outgoing_kept_def)
    with busy i assms(4,10,11) show ?thesis
      by (auto simp: settle_def can_settle_def continue_def leave_def)
  qed
qed

theorem unload_rejected_stays_attached_witness:
  "\<not> isTransitioning
      (run (registerScenes @ [LoadScene ''menu'' 0, Settle 0 Resolved]) (init slow_clock)) \<and>
   currentScene
      (run (registerScenes @ [LoadScene ''menu'' 0, Settle 0 Resolved]) (init slow_clock))
      = Some 0 \<and>
   stage (run (registerScenes @ [LoadScene ''menu'' 0, Settle 0 Resolved]) (init slow_clock))
      = [0] \<and>
   in_flight_through [AnimationFrame 0, Settle 0 Resolved]
     (fst (step (LoadScene ''overworld'' 300)
        (run (registerScenes @ [LoadScene ''menu'' 0, Settle 0 Resolved]) (init slow_clock)))) \<and>
   \<not> list_ex is_BaseUnload [AnimationFrame 0, Settle 0 Resolved] \<and>
   awaiting (pending (run [AnimationFrame 0, Settle 0 Resolved]
     (fst (step (LoadScene ''overworld'' 300)
        (run (registerScenes @ [LoadScene ''menu'' 0, Settle 0 Resolved]) (init slow_clock))))) ! 0)
      = Unload \<and>
   stage (fst (step (Settle 0 (Rejected ''unload failed''))
     (run [AnimationFrame 0, Settle 0 Resolved]
       (fst (step (LoadScene ''overworld'' 300)
          (run (registerScenes @ [LoadScene ''menu'' 0, Settle 0 Resolved])
             (init slow_clock))))))) = [0]"
proof -
  let ?w0 = "run (registerScenes @ [LoadScene ''menu'' 0, Settle 0 Resolved]) (init slow_clock)"
  let ?w1 = "fst (step (LoadScene ''overworld'' 300) ?w0)"
  let ?es = "[AnimationFrame 0, Settle 0 Resolved]"
  have h1: "\<not> isTransitioning ?w0" by (simp add: eval_defs)
  have h2: "currentScene ?w0 = Some 0" by (simp add: eval_defs)
  have h3: "stage ?w0 = [0]" by (simp add: eval_defs)
  have h3': "0 \<in> set (stage ?w0)" using h3 by simp
  have h4: "scenes ?w0 ''overworld'' = Some OverworldScene" by (simp add: eval_defs)
  have h5: "in_flight_through ?es ?w1" by (simp add: eval_defs)
  have h6: "\<not> list_ex is_BaseUnload ?es" by simp
  have h7: "0 < length (pending (run ?es ?w1))" by (simp add: eval_defs)
  have h8: "awaiting (pending (run ?es ?w1) ! 0) = Unload" by (simp add: eval_defs)
  from unload_rejected_stays_attached
         [OF refl h1 h2 h3' h4 refl h5 h6 h7 h8 surjective_pairing, of "''unload failed''"]
  have "stage (fst (step (Settle 0 (Rejected ''unload failed'')) (run ?es ?w1))) = stage ?w0"
    by blast
  with h1 h2 h3 h5 h6 h8 show ?thesis by simp
qed

subsection \<open>An unregistered name\<close>

text \<open>
  C6: \<open>loadScene\<close> with a name that is not in the table, called while no transition
  runs, throws the error that names the scene and changes nothing: the flag is never
  raised, the slot is as before.
\<close>

theorem loadScene_unregistered:
  "\<not> isTransitioning w \<Longrightarrow> scenes w n = None \<Longrightarrow>
   step (LoadScene n d) w = (w, Some (Threw (NotRegistered n)))"
  by (simp add: loadScene_def)

theorem loadScene_unregistered_witness:
  "\<not> isTransitioning (run registerScenes (init frame_clock)) \<and>
   scenes (run registerScenes (init frame_clock)) ''battle'' = None \<and>
   snd (step (LoadScene ''battle'' 300) (run registerScenes (init frame_clock))) =
     Some (Threw (NotRegistered ''battle'')) \<and>
   \<not> isTransitioning (fst (step (LoadScene ''battle'' 300) (run registerScenes (init frame_clock)))) \<and>
   currentScene (fst (step (LoadScene ''battle'' 300) (run registerScenes (init frame_clock)))) = None"
proof -
  let ?w = "run registerScenes (init frame_clock)"
  have h1: "\<not> isTransitioning ?w" by (simp add: eval_defs)
  have h2: "scenes ?w ''battle'' = None" by (simp add: eval_defs)
  have h3: "currentScene ?w = None" by (simp add: eval_defs)
  show ?thesis
    using h1 h2 h3 loadScene_unregistered [OF h1 h2, of 300] by simp
qed

subsection \<open>The flag\<close>

text \<open>
  C4: in every world the manager can reach, the flag is up exactly when an activation of
  \<open>loadScene\<close> is parked, and at most one is. Whenever an activation ends, with a return
  or with a throw of any kind (a rejected \<open>load()\<close> or \<open>unload()\<close>, a throwing
  constructor, an unregistered name), the flag is down and nothing is parked.
\<close>

theorem transition_flag_tracks_in_flight:
  assumes "w = run es (init clk)"
  shows "(isTransitioning w \<longleftrightarrow> pending w \<noteq> []) \<and> length (pending w) \<le> 1 \<and>
         (step (Settle i s) w = (w', Some res) \<longrightarrow> \<not> isTransitioning w' \<and> pending w' = []) \<and>
         (\<not> isTransitioning w \<and> step (LoadScene n d) w = (w'', Some res') \<longrightarrow>
            \<not> isTransitioning w'' \<and> pending w'' = [])"
proof -
  have inv: "invariant w" using assms by (simp add: invariant_run)
  have a: "(isTransitioning w \<longleftrightarrow> pending w \<noteq> []) \<and> length (pending w) \<le> 1"
    using inv by (simp add: invariant_def)
  have b: "\<not> isTransitioning w' \<and> pending w' = []" if st: "step (Settle i s) w = (w', Some res)"
  proof -
    have "invariant (fst (step (Settle i s) w))" by (rule invariant_step [OF inv])
    with st have inv': "invariant w'" by simp
    from st have "\<not> isTransitioning w'"
      by (auto simp: settle_def leave_def Let_def split: if_splits prod.splits control.splits)
    with inv' show ?thesis by (simp add: invariant_def)
  qed
  have c: "\<not> isTransitioning w'' \<and> pending w'' = []"
    if idle: "\<not> isTransitioning w" and st: "step (LoadScene n d) w = (w'', Some res')"
  proof -
    have "invariant (fst (step (LoadScene n d) w))" by (rule invariant_step [OF inv])
    with st have inv': "invariant w''" by simp
    from st idle have "\<not> isTransitioning w''"
      by (auto simp: loadScene_def leave_def split: option.splits prod.splits control.splits)
    with inv' show ?thesis by (simp add: invariant_def)
  qed
  from a b c show ?thesis by blast
qed

theorem transition_flag_tracks_in_flight_witness:
  "isTransitioning (run (registerScenes @ [LoadScene ''menu'' 300]) (init frame_clock)) \<and>
   step (Settle 0 (Rejected ''load failed''))
     (run (registerScenes @ [LoadScene ''menu'' 300]) (init frame_clock)) =
     (fst (step (Settle 0 (Rejected ''load failed''))
        (run (registerScenes @ [LoadScene ''menu'' 300]) (init frame_clock))),
      Some (Threw (SceneError ''load failed''))) \<and>
   \<not> isTransitioning (fst (step (Settle 0 (Rejected ''load failed''))
        (run (registerScenes @ [LoadScene ''menu'' 300]) (init frame_clock))))"
proof -
  let ?w = "run (registerScenes @ [LoadScene ''menu'' 300]) (init frame_clock)"
  have h: "step (Settle 0 (Rejected ''load failed'')) ?w =
     (fst (step (Settle 0 (Rejected ''load failed'')) ?w),
      Some (Threw (SceneError ''load failed'')))"
    by (simp add: eval_defs)
  have p: "pending ?w \<noteq> []" by (simp add: eval_defs)
  show ?thesis
    using h p transition_flag_tracks_in_flight [OF refl,
        of "registerScenes @ [LoadScene ''menu'' 300]" frame_clock 0 "Rejected ''load failed''"
           "fst (step (Settle 0 (Rejected ''load failed'')) ?w)"
           "Threw (SceneError ''load failed'')"]
    by blast
qed

subsection \<open>A rejected \<open>load()\<close>\<close>

text \<open>
  C5: when the \<open>load()\<close> of the new scene rejects, the error reaches the caller,
  \<open>getCurrentScene()\<close> is empty, the new scene is not attached, and the flag is down: a
  following \<open>loadScene\<close> is not turned away by the guard (it never just returns), and for
  a registered class whose constructor does not throw it starts a transition.
\<close>

theorem load_rejected_leaves_idle:
  assumes "w = run es (init clk)" and "i < length (pending w)"
    and "awaiting (pending w ! i) = Load r"
    and "step (Settle i (Rejected m)) w = (w', res)"
  shows "res = Some (Threw (SceneError m)) \<and> getCurrentScene w' = None \<and>
         \<not> isTransitioning w' \<and> pending w' = [] \<and> r \<notin> set (stage w') \<and>
         snd (step (LoadScene n d) w') \<noteq> Some Returned \<and>
         (scenes w' n = Some k \<and> ctor_throws k = None \<longrightarrow>
            snd (step (LoadScene n d) w') = None \<and>
            isTransitioning (fst (step (LoadScene n d) w')) \<and>
            pending (fst (step (LoadScene n d) w')) =
              [\<lparr> name = n, sceneClass = k, transitionDuration = d,
                 awaiting = Load (fresh w') \<rparr>])"
proof -
  have inv: "invariant w" using assms(1) by (simp add: invariant_run)
  show ?thesis
  proof (rule pending_cases [OF inv])
    assume "pending w = []" "\<not> isTransitioning w"
    with assms(2) show ?thesis by simp
  next
    fix a assume busy: "pending w = [a]" "isTransitioning w" "wf_await w a"
    with assms(2) have i: "i = 0" by simp
    from busy i assms(3,4) have w': "w' = w\<lparr> pending := [],
          console := console w @ [Error_failed (name a) (SceneError m)],
          isTransitioning := False \<rparr>" and res: "res = Some (Threw (SceneError m))"
      by (auto simp: settle_def can_settle_def continue_def leave_def)
    from busy assms(3) i have cur: "currentScene w = None" "r \<notin> set (stage w)"
      by (simp_all add: wf_await_def)
    show ?thesis
      using w' res cur
      by (auto simp: getCurrentScene_def loadScene_def body_defs Let_def
               split: option.splits)
  qed
qed

theorem load_rejected_leaves_idle_witness:
  "0 < length (pending (run (registerScenes @ [LoadScene ''menu'' 300]) (init frame_clock))) \<and>
   awaiting (pending (run (registerScenes @ [LoadScene ''menu'' 300]) (init frame_clock)) ! 0)
     = Load 0 \<and>
   getCurrentScene (fst (step (Settle 0 (Rejected ''load failed''))
        (run (registerScenes @ [LoadScene ''menu'' 300]) (init frame_clock)))) = None \<and>
   scenes (fst (step (Settle 0 (Rejected ''load failed''))
        (run (registerScenes @ [LoadScene ''menu'' 300]) (init frame_clock)))) ''overworld''
     = Some OverworldScene \<and>
   ctor_throws OverworldScene = None \<and>
   isTransitioning (fst (step (LoadScene ''overworld'' 300)
     (fst (step (Settle 0 (Rejected ''load failed''))
        (run (registerScenes @ [LoadScene ''menu'' 300]) (init frame_clock))))))"
proof -
  let ?w = "run (registerScenes @ [LoadScene ''menu'' 300]) (init frame_clock)"
  have h1: "0 < length (pending ?w)" by (simp add: eval_defs)
  have h2: "awaiting (pending ?w ! 0) = Load 0" by (simp add: eval_defs)
  have h3: "scenes (fst (step (Settle 0 (Rejected ''load failed'')) ?w)) ''overworld''
     = Some OverworldScene" by (simp add: eval_defs)
  have h4: "ctor_throws OverworldScene = None" by (simp add: OverworldScene_def)
  show ?thesis
    using h1 h2 h3 h4
      load_rejected_leaves_idle [OF refl h1 h2 surjective_pairing,
        of "''load failed''" "''overworld''" 300 OverworldScene]
    by simp
qed

subsection \<open>A call that succeeds\<close>

text \<open>
  C8, as the spec has it: every \<open>loadScene\<close> that succeeds leaves a scene of the class
  registered for its name in the slot. Not every: a call for \<open>'overworld'\<close> made while
  \<open>'menu'\<close> is loading returns without error, the slot is empty and the flag is up; when
  the first call goes on, the slot holds a \<open>MenuScene\<close>.
\<close>

theorem loadScene_returns_without_scene_counterexample:
  "scenes (run (registerScenes @ [LoadScene ''menu'' 0]) (init frame_clock)) ''overworld''
     = Some OverworldScene \<and>
   snd (step (LoadScene ''overworld'' 0)
          (run (registerScenes @ [LoadScene ''menu'' 0]) (init frame_clock))) = Some Returned \<and>
   getCurrentScene (fst (step (LoadScene ''overworld'' 0)
          (run (registerScenes @ [LoadScene ''menu'' 0]) (init frame_clock)))) = None \<and>
   isTransitioning (fst (step (LoadScene ''overworld'' 0)
          (run (registerScenes @ [LoadScene ''menu'' 0]) (init frame_clock)))) \<and>
   getCurrentScene (run (registerScenes @
          [LoadScene ''menu'' 0, LoadScene ''overworld'' 0, Settle 0 Resolved])
          (init frame_clock)) = Some 0 \<and>
   cls (heap (run (registerScenes @
          [LoadScene ''menu'' 0, LoadScene ''overworld'' 0, Settle 0 Resolved])
          (init frame_clock)) 0) = MenuScene \<and>
   MenuScene \<noteq> OverworldScene"
  by (simp add: eval_defs)

text \<open>
  C8, amended: take a reachable world with no transition running, a name \<open>n\<close> registered with
  class \<open>k\<close>, and a call \<open>loadScene(n, d)\<close>. The call does not return at once; if it
  stays in flight through the events \<open>es\<close> and then returns, the slot holds a scene built
  from \<open>k\<close>, this scene is attached to the stage, its alpha is 1, and the flag is down.
  (The container of a new scene has alpha 1, and scene code is taken not to write it.)
\<close>

theorem loadScene_success:
  assumes "w0 = run es0 (init clk)" and "\<not> isTransitioning w0" and "scenes w0 n = Some k"
    and "w1 = fst (step (LoadScene n d) w0)" and "in_flight_through es w1"
    and "step (Settle i s) (run es w1) = (w', Some Returned)"
  shows "snd (step (LoadScene n d) w0) = None \<and>
         (\<exists>r. getCurrentScene w' = Some r \<and> cls (heap w' r) = k \<and>
              r \<in> set (stage w') \<and> alpha (heap w' r) = 1 \<and> \<not> isTransitioning w')"
proof -
  have inv0: "invariant w0" using assms(1) by (simp add: invariant_run)
  with assms(2) have idle: "pending w0 = []" by (simp add: invariant_def)
  have inv1: "invariant w1" using assms(4) invariant_loadScene [OF inv0] by simp
  from assms(5) have parked: "pending w1 \<noteq> []" by (cases es) simp_all
  with assms(2,3,4) idle obtain p where
    p: "pending w1 = [\<lparr> name = n, sceneClass = k, transitionDuration = d, awaiting = p \<rparr>]"
    using call_parks [of w0 n k d] by auto
  from parked assms(2,3,4) idle have pend: "snd (step (LoadScene n d) w0) = None"
    by (auto simp: loadScene_def leave_def dest!: begin_transition_pending
             split: prod.splits control.splits)
  from same_call_run [OF inv1 p assms(5)] obtain b
    where b: "pending (run es w1) = [b]" "sceneClass b = k"
    by (auto simp: same_call_def)
  have "invariant (run es w1)" using inv1 by (rule invariant_run_from)
  from success_installs [OF this b(1)] assms(6) b(2) pend show ?thesis
    by (simp add: getCurrentScene_def)
qed

theorem loadScene_success_witness:
  "\<not> isTransitioning
      (run (registerScenes @ [LoadScene ''menu'' 0, Settle 0 Resolved]) (init slow_clock)) \<and>
   scenes (run (registerScenes @ [LoadScene ''menu'' 0, Settle 0 Resolved]) (init slow_clock))
      ''overworld'' = Some OverworldScene \<and>
   in_flight_through
     [AnimationFrame 0, Settle 0 Resolved, Settle 0 Resolved, Settle 0 Resolved,
      AnimationFrame 0]
     (fst (step (LoadScene ''overworld'' 300)
        (run (registerScenes @ [LoadScene ''menu'' 0, Settle 0 Resolved]) (init slow_clock)))) \<and>
   snd (step (Settle 0 Resolved)
     (run [AnimationFrame 0, Settle 0 Resolved, Settle 0 Resolved, Settle 0 Resolved,
           AnimationFrame 0]
       (fst (step (LoadScene ''overworld'' 300)
          (run (registerScenes @ [LoadScene ''menu'' 0, Settle 0 Resolved])
             (init slow_clock))))))
     = Some Returned \<and>
   (\<exists>r. getCurrentScene (fst (step (Settle 0 Resolved)
         (run [AnimationFrame 0, Settle 0 Resolved, Settle 0 Resolved, Settle 0 Resolved,
               AnimationFrame 0]
           (fst (step (LoadScene ''overworld'' 300)
              (run (registerScenes @ [LoadScene ''menu'' 0, Settle 0 Resolved])
                 (init slow_clock))))))) = Some r \<and>
        cls (heap (fst (step (Settle 0 Resolved)
         (run [AnimationFrame 0, Settle 0 Resolved, Settle 0 Resolved, Settle 0 Resolved,
               AnimationFrame 0]
           (fst (step (LoadScene ''overworld'' 300)
              (run (registerScenes @ [LoadScene ''menu'' 0, Settle 0 Resolved])
                 (init slow_clock))))))) r) = OverworldScene)"
proof -
  let ?w0 = "run (registerScenes @ [LoadScene ''menu'' 0, Settle 0 Resolved]) (init slow_clock)"
  let ?w1 = "fst (step (LoadScene ''overworld'' 300) ?w0)"
  let ?es = "[AnimationFrame 0, Settle 0 Resolved, Settle 0 Resolved, Settle 0 Resolved,
              AnimationFrame 0]"
  have h1: "\<not> isTransitioning ?w0" by (simp add: eval_defs)
  have h2: "scenes ?w0 ''overworld'' = Some OverworldScene" by (simp add: eval_defs)
  have h3: "in_flight_through ?es ?w1" by (simp add: eval_defs)
  have h4: "step (Settle 0 Resolved) (run ?es ?w1) =
              (fst (step (Settle 0 Resolved) (run ?es ?w1)), Some Returned)"
    by (simp add: eval_defs)
  from loadScene_success [OF refl h1 h2 refl h3 h4] h1 h2 h3 h4 show ?thesis
    by (metis snd_conv)
qed

subsection \<open>A transition without fade\<close>

text \<open>
  C9: a transition with a duration of 0 (or below) never waits in a fade. None of its
  steps writes an alpha: the store of scenes changes only by the new scene, built with
  alpha 1, and an animation frame changes nothing. The order is kept: with a current
  scene the call first awaits its \<open>unload()\<close>, the new scene not built yet; when that
  resolves the slot is cleared and \<open>load()\<close> of the new scene is awaited; when that
  resolves the new scene is attached and set, and the call returns.
\<close>

theorem zero_duration_skips_fades:
  assumes "w = run es (init clk)"
  shows "(a \<in> set (pending w) \<and> transitionDuration a \<le> 0 \<longrightarrow>
            awaiting a = Unload \<or> (\<exists>r. awaiting a = Load r)) \<and>
         (\<not> isTransitioning w \<and> scenes w n = Some k \<and> d \<le> 0 \<longrightarrow>
            (heap (fst (step (LoadScene n d) w)) = heap w \<or>
             heap (fst (step (LoadScene n d) w)) = (heap w)(fresh w := \<lparr> cls = k, alpha = 1 \<rparr>)) \<and>
            (currentScene w \<noteq> None \<longrightarrow>
               pending (fst (step (LoadScene n d) w)) =
                 [\<lparr> name = n, sceneClass = k, transitionDuration = d, awaiting = Unload \<rparr>] \<and>
               fresh (fst (step (LoadScene n d) w)) = fresh w)) \<and>
         (i < length (pending w) \<and> transitionDuration (pending w ! i) \<le> 0 \<longrightarrow>
            (heap (fst (step (Settle i s) w)) = heap w \<or>
             heap (fst (step (Settle i s) w)) =
               (heap w)(fresh w := \<lparr> cls = sceneClass (pending w ! i), alpha = 1 \<rparr>)) \<and>
            fst (step (AnimationFrame i) w) = w \<and>
            (awaiting (pending w ! i) = Unload \<and> s = Resolved \<and>
             ctor_throws (sceneClass (pending w ! i)) = None \<longrightarrow>
               pending (fst (step (Settle i s) w)) =
                 [(pending w ! i)\<lparr> awaiting := Load (fresh w) \<rparr>] \<and>
               currentScene (fst (step (Settle i s) w)) = None) \<and>
            (awaiting (pending w ! i) = Load r \<and> s = Resolved \<longrightarrow>
               step (Settle i s) w =
                 (w\<lparr> stage := stage w @ [r], currentScene := Some r, pending := [],
                    console := console w @ [Log_loaded (name (pending w ! i))],
                    isTransitioning := False \<rparr>, Some Returned)))"
proof -
  have inv: "invariant w" using assms(1) by (simp add: invariant_run)
  show ?thesis
  proof (rule pending_cases [OF inv])
    assume idle: "pending w = []" "\<not> isTransitioning w"
    then show ?thesis
      by (auto simp: loadScene_def body_defs Let_def split: option.splits)
  next
    fix b assume busy: "pending w = [b]" "isTransitioning w" "wf_await w b"
    have 1: "awaiting b = Unload \<or> (\<exists>r. awaiting b = Load r)" if "transitionDuration b \<le> 0"
      using that busy(3) by (cases "awaiting b") (auto simp: wf_await_def)
    have 2: "heap (fst (settle 0 s w)) = heap w \<or>
             heap (fst (settle 0 s w)) = (heap w)(fresh w := \<lparr> cls = sceneClass b, alpha = 1 \<rparr>)"
      if "transitionDuration b \<le> 0"
      using 1 [OF that] that busy
      by (cases s)
         (auto simp: settle_def can_settle_def continue_def wf_await_def body_defs Let_def
               split: option.splits)
    have 3: "animationFrame 0 w = w" if "transitionDuration b \<le> 0"
      using 1 [OF that] busy by (auto simp: animationFrame_def)
    have 4: "pending (fst (settle 0 Resolved w)) = [b\<lparr> awaiting := Load (fresh w) \<rparr>] \<and>
             currentScene (fst (settle 0 Resolved w)) = None"
      if "awaiting b = Unload" "ctor_throws (sceneClass b) = None"
      using that busy
      by (auto simp: settle_def can_settle_def continue_def wf_await_def body_defs Let_def
               split: option.splits)
    have 5: "settle 0 Resolved w =
       (w\<lparr> stage := stage w @ [r], currentScene := Some r, pending := [],
           console := console w @ [Log_loaded (name b)],
           isTransitioning := False \<rparr>, Some Returned)"
      if "awaiting b = Load r" "transitionDuration b \<le> 0"
      using that busy
      by (auto simp: settle_def can_settle_def continue_def wf_await_def body_defs Let_def)
    show ?thesis
      using busy(1,2) 1 2 3 4 5 by auto
  qed
qed

theorem zero_duration_skips_fades_witness:
  "\<not> isTransitioning (run (registerScenes @ [LoadScene ''menu'' 0, Settle 0 Resolved])
        (init frame_clock)) \<and>
   scenes (run (registerScenes @ [LoadScene ''menu'' 0, Settle 0 Resolved])
        (init frame_clock)) ''overworld'' = Some OverworldScene \<and>
   currentScene (run (registerScenes @ [LoadScene ''menu'' 0, Settle 0 Resolved])
        (init frame_clock)) \<noteq> None \<and>
   pending (fst (step (LoadScene ''overworld'' 0)
      (run (registerScenes @ [LoadScene ''menu'' 0, Settle 0 Resolved]) (init frame_clock)))) =
     [\<lparr> name = ''overworld'', sceneClass = OverworldScene, transitionDuration = 0,
        awaiting = Unload \<rparr>] \<and>
   0 < length (pending (run (registerScenes @
        [LoadScene ''menu'' 0, Settle 0 Resolved, LoadScene ''overworld'' 0])
        (init frame_clock))) \<and>
   transitionDuration (pending (run (registerScenes @
        [LoadScene ''menu'' 0, Settle 0 Resolved, LoadScene ''overworld'' 0])
        (init frame_clock)) ! 0) \<le> 0 \<and>
   fst (step (AnimationFrame 0) (run (registerScenes @
        [LoadScene ''menu'' 0, Settle 0 Resolved, LoadScene ''overworld'' 0])
        (init frame_clock))) =
     run (registerScenes @
        [LoadScene ''menu'' 0, Settle 0 Resolved, LoadScene ''overworld'' 0])
        (init frame_clock)"
proof -
  let ?w = "run (registerScenes @ [LoadScene ''menu'' 0, Settle 0 Resolved]) (init frame_clock)"
  let ?v = "run (registerScenes @
        [LoadScene ''menu'' 0, Settle 0 Resolved, LoadScene ''overworld'' 0])
        (init frame_clock)"
  have h1: "\<not> isTransitioning ?w" by (simp add: eval_defs)
  have h2: "scenes ?w ''overworld'' = Some OverworldScene" by (simp add: eval_defs)
  have h3: "currentScene ?w \<noteq> None" by (simp add: eval_defs)
  have h4: "0 < length (pending ?v)" by (simp add: eval_defs)
  have h5: "transitionDuration (pending ?v ! 0) \<le> 0" by (simp add: eval_defs)
  have a: "pending (fst (step (LoadScene ''overworld'' 0) ?w)) =
     [\<lparr> name = ''overworld'', sceneClass = OverworldScene, transitionDuration = 0,
        awaiting = Unload \<rparr>]"
    using h1 h2 h3
      zero_duration_skips_fades [OF refl, of _ "registerScenes @ [LoadScene ''menu'' 0, Settle 0 Resolved]"
         frame_clock "''overworld''" OverworldScene 0]
    by simp
  have b: "fst (step (AnimationFrame 0) ?v) = ?v"
    using h4 h5
      zero_duration_skips_fades [OF refl, of _ "registerScenes @
        [LoadScene ''menu'' 0, Settle 0 Resolved, LoadScene ''overworld'' 0]"
         frame_clock _ _ _ 0]
    by blast
  from h1 h2 h3 h4 h5 a b show ?thesis by blast
qed

subsection \<open>Registering a name again\<close>



end
